theory Spec2Isabelle
  imports Main "HOL-Library.AList"
begin

section \<open>Strings and the built-in string operations\<close>

text \<open>
  A Python \<^verbatim>\<open>str\<close> is a sequence of Unicode code points; a code point is a natural
  number here. \<open>str\<close> turns an ASCII literal into such a sequence.
\<close>

type_synonym pystr = "nat list"

definition str :: "string \<Rightarrow> pystr" where
  "str s = map of_char s"

text \<open>
  \<^verbatim>\<open>str.split()\<close> without a separator splits at the code points for which
  \<^verbatim>\<open>str.isspace\<close> holds: the ASCII ones (tab to carriage return, the four
  separators 0x1C to 0x1F, the space) and the Unicode ones (NEL, NBSP, Ogham space,
  en quad to hair space, line and paragraph separator, narrow NBSP, medium
  mathematical space, ideographic space).
\<close>

definition isspace :: "nat \<Rightarrow> bool" where
  "isspace c \<longleftrightarrow>
     (9 \<le> c \<and> c \<le> 13) \<or> (28 \<le> c \<and> c \<le> 32) \<or> c = 133 \<or> c = 160 \<or> c = 5760 \<or>
     (8192 \<le> c \<and> c \<le> 8202) \<or> c = 8232 \<or> c = 8233 \<or> c = 8239 \<or> c = 8287 \<or>
     c = 12288"

text \<open>
  \<^verbatim>\<open>s.split()\<close>: skip a run of whitespace; if the string is used up, stop; else the
  token is the run of non-whitespace that starts there, and the rest is split the same
  way. Leading, trailing and repeated whitespace give no empty token.
\<close>

function split :: "pystr \<Rightarrow> pystr list" where
  "split s =
     (case dropWhile isspace s of
        [] \<Rightarrow> []
      | c # cs \<Rightarrow>
          (c # takeWhile (\<lambda>x. \<not> isspace x) cs) # split (dropWhile (\<lambda>x. \<not> isspace x) cs))"
  by pat_completeness auto
termination
proof (relation "measure length")
  show "wf (measure length)" by simp
next
  fix s :: pystr and c cs
  assume eq: "dropWhile isspace s = c # cs"
  have "length (dropWhile (\<lambda>x. \<not> isspace x) cs) \<le> length cs"
    by (rule length_dropWhile_le)
  also have "length cs < length (dropWhile isspace s)"
    by (simp add: eq)
  also have "length (dropWhile isspace s) \<le> length s"
    by (rule length_dropWhile_le)
  finally show "(dropWhile (\<lambda>x. \<not> isspace x) cs, s) \<in> measure length"
    by simp
qed

declare split.simps [simp del]

text \<open>\<^verbatim>\<open>" ".join(xs)\<close>: the strings of \<open>xs\<close> with one space between neighbours.\<close>

fun join :: "pystr list \<Rightarrow> pystr" where
  "join [] = []"
| "join [x] = x"
| "join (x # y # ys) = x @ 32 # join (y # ys)"

section \<open>The correction differ\<close>

text \<open>
  The fragment of a changed position, the f-string
  \<^verbatim>\<open><del style='color:red;'>{o_token}</del> <span style='color:green;'>{c_token}</span>\<close>.
\<close>

definition marked :: "pystr \<Rightarrow> pystr \<Rightarrow> pystr" where
  "marked o_token c_token =
     str ''<del style='' @ 39 # str ''color:red;'' @ 39 # str ''>'' @ o_token @
     str ''</del> <span style='' @ 39 # str ''color:green;'' @ 39 # str ''>'' @ c_token @
     str ''</span>''"

text \<open>
  The loop of \<^verbatim>\<open>highlight_errors\<close> over the pairs that \<^verbatim>\<open>zip\<close> yields, with the
  list \<^verbatim>\<open>highlighted\<close> as accumulator: one \<^verbatim>\<open>append\<close> for each pair.
\<close>

fun highlight_loop :: "(pystr \<times> pystr) list \<Rightarrow> pystr list \<Rightarrow> pystr list" where
  "highlight_loop [] highlighted = highlighted"
| "highlight_loop ((o_token, c_token) # ps) highlighted =
     (if o_token \<noteq> c_token
      then highlight_loop ps (highlighted @ [marked o_token c_token])
      else highlight_loop ps (highlighted @ [o_token]))"

text \<open>The list \<^verbatim>\<open>highlighted\<close> when the loop of \<^verbatim>\<open>highlight_errors\<close> ends.\<close>

definition highlighted :: "pystr \<Rightarrow> pystr \<Rightarrow> pystr list" where
  "highlighted original corrected =
     (let original_tokens = split original;
          corrected_tokens = split corrected
      in highlight_loop (zip original_tokens corrected_tokens) [])"

definition highlight_errors :: "pystr \<Rightarrow> pystr \<Rightarrow> pystr" where
  "highlight_errors original corrected = join (highlighted original corrected)"

text \<open>
  A \<^verbatim>\<open>dict\<close> is an association list with distinct keys in insertion order;
  \<^verbatim>\<open>d[k] = v\<close> is \<open>AList.update k v d\<close>: a key already there keeps its place and takes
  the new value, a new key goes to the end.
\<close>

type_synonym pydict = "(pystr \<times> pystr) list"

fun corrections_loop :: "(pystr \<times> pystr) list \<Rightarrow> pydict \<Rightarrow> pydict" where
  "corrections_loop [] corrections = corrections"
| "corrections_loop ((o_token, c_token) # ps) corrections =
     (if o_token \<noteq> c_token
      then corrections_loop ps (AList.update o_token c_token corrections)
      else corrections_loop ps corrections)"

definition get_corrections :: "pystr \<Rightarrow> pystr \<Rightarrow> pystr list \<times> pydict" where
  "get_corrections original corrected =
     (let original_tokens = split original;
          corrected_tokens = split corrected;
          corrections = corrections_loop (zip original_tokens corrected_tokens) []
      in (corrected_tokens, corrections))"

section \<open>Reading the returned markup\<close>



section \<open>The loops as list functions\<close>

lemma highlight_loop_acc:
  "highlight_loop ps acc = acc @ map (\<lambda>(a, b). if a \<noteq> b then marked a b else a) ps"
  by (induction ps acc rule: highlight_loop.induct) simp_all

lemma corrections_loop_distinct:
  "distinct (map fst acc) \<Longrightarrow> distinct (map fst (corrections_loop ps acc))"
  by (induction ps acc rule: corrections_loop.induct) (simp_all add: distinct_update)

text \<open>
  The dictionary after the loop: the entries it had, overridden by the changed pairs,
  a later pair before an earlier one with the same key.
\<close>

lemma corrections_loop_map_of:
  "map_of (corrections_loop ps acc) =
     map_of acc ++ map_of (rev (filter (\<lambda>(a, b). a \<noteq> b) ps))"
proof (induction ps acc rule: corrections_loop.induct)
  case (1 acc)
  show ?case by simp
next
  case (2 a b ps acc)
  show ?case
  proof (cases "a = b")
    case True
    with 2 show ?thesis by simp
  next
    case False
    have upd: "map_of (AList.update a b acc) = map_of acc ++ [a \<mapsto> b]"
      by (simp only: update_conv' map_add_upd map_add_empty)
    have "map_of (corrections_loop ((a, b) # ps) acc) =
            map_of (AList.update a b acc) ++ map_of (rev (filter (\<lambda>(a, b). a \<noteq> b) ps))"
      using 2 False by simp
    also have "\<dots> = map_of acc ++ ([a \<mapsto> b] ++ map_of (rev (filter (\<lambda>(a, b). a \<noteq> b) ps)))"
      by (simp only: upd map_add_assoc)
    also have "[a \<mapsto> b] ++ map_of (rev (filter (\<lambda>(a, b). a \<noteq> b) ps)) =
                 map_of (rev (filter (\<lambda>(a, b). a \<noteq> b) ((a, b) # ps)))"
      using False by simp
    finally show ?thesis .
  qed
qed

text \<open>
  Looking a key up among the changed pairs, the last one first, finds the pair at the
  last index where that key is changed.
\<close>

lemma last_change_index:
  "map_of (rev (filter (\<lambda>(a, b). a \<noteq> b) ps)) k = Some v \<longleftrightarrow>
     (\<exists>i < length ps. ps ! i = (k, v) \<and> k \<noteq> v \<and>
        (\<forall>j. i < j \<and> j < length ps \<and> fst (ps ! j) = k \<longrightarrow> snd (ps ! j) = k))"
proof (induction ps rule: rev_induct)
  case Nil
  show ?case by simp
next
  case (snoc p ps)
  obtain a b where p: "p = (a, b)" by (cases p)
  let ?R = "\<lambda>qs. \<exists>i < length qs. qs ! i = (k, v) \<and> k \<noteq> v \<and>
        (\<forall>j. i < j \<and> j < length qs \<and> fst (qs ! j) = k \<longrightarrow> snd (qs ! j) = k)"
  show ?case
  proof (cases "a \<noteq> b \<and> k = a")
    case True
    have "?R (ps @ [p]) \<longleftrightarrow> v = b"
      by (metis True length_append_singleton lessI less_SucE not_less_eq
          nth_append_length p split_pairs2)
    then show ?thesis using True p by auto
  next
    case False
    have "?R (ps @ [p]) \<longleftrightarrow> ?R ps"
    proof
      assume "?R (ps @ [p])"
      then obtain i where i: "i < length (ps @ [p])" "(ps @ [p]) ! i = (k, v)" "k \<noteq> v"
        "\<forall>j. i < j \<and> j < length (ps @ [p]) \<and> fst ((ps @ [p]) ! j) = k \<longrightarrow>
           snd ((ps @ [p]) ! j) = k"
        by blast
      have lt: "i < length ps"
      proof (rule ccontr)
        assume "\<not> i < length ps"
        with i(1) have "i = length ps" by simp
        with i(2) p have "a = k" "b = v" by simp_all
        with i(3) False show False by simp
      qed
      have later: "snd (ps ! j) = k" if "i < j" "j < length ps" "fst (ps ! j) = k" for j
        using i(4) that by (auto simp: nth_append dest!: spec [of _ j])
      from lt i(2) have "ps ! i = (k, v)" by (simp add: nth_append)
      with lt i(3) later show "?R ps" by blast
    next
      assume "?R ps"
      then obtain i where i: "i < length ps" "ps ! i = (k, v)" "k \<noteq> v"
        "\<forall>j. i < j \<and> j < length ps \<and> fst (ps ! j) = k \<longrightarrow> snd (ps ! j) = k"
        by blast
      have later: "snd ((ps @ [p]) ! j) = k"
        if "i < j" "j < length (ps @ [p])" "fst ((ps @ [p]) ! j) = k" for j
      proof (cases "j < length ps")
        case True
        with that i(4) show ?thesis by (simp add: nth_append)
      next
        case f: False
        with that(2) have "j = length ps" by simp
        with that(3) p False show ?thesis by simp
      qed
      from i have "i < length (ps @ [p])" "(ps @ [p]) ! i = (k, v)"
        by (simp_all add: nth_append)
      with i(3) later show "?R (ps @ [p])" by blast
    qed
    then show ?thesis using False p snoc.IH by auto
  qed
qed

section \<open>Facts about splitting and joining\<close>

lemma isspace_32: "isspace 32" by (simp add: isspace_def)

lemma split_tokens:
  "t \<in> set (split s) \<Longrightarrow> t \<noteq> [] \<and> (\<forall>x \<in> set t. \<not> isspace x)"
proof (induction s rule: split.induct)
  case (1 s)
  show ?case
  proof (cases "dropWhile isspace s")
    case Nil
    with 1(2) show ?thesis by (simp add: split.simps [of s])
  next
    case (Cons c cs)
    have c: "\<not> isspace c"
      using hd_dropWhile [of isspace s] Cons by simp
    from 1(2) Cons have "t = c # takeWhile (\<lambda>x. \<not> isspace x) cs \<or>
        t \<in> set (split (dropWhile (\<lambda>x. \<not> isspace x) cs))"
      by (simp add: split.simps [of s])
    then show ?thesis
    proof
      assume "t = c # takeWhile (\<lambda>x. \<not> isspace x) cs"
      with c show ?thesis by (auto dest: set_takeWhileD)
    next
      assume "t \<in> set (split (dropWhile (\<lambda>x. \<not> isspace x) cs))"
      with 1(1) [OF Cons] show ?thesis .
    qed
  qed
qed

lemma length_split_le: "length (split s) \<le> length s"
proof (induction s rule: split.induct)
  case (1 s)
  show ?case
  proof (cases "dropWhile isspace s")
    case Nil
    show ?thesis by (simp add: split.simps [of s] Nil)
  next
    case (Cons c cs)
    have "length (split s) = Suc (length (split (dropWhile (\<lambda>x. \<not> isspace x) cs)))"
      by (simp add: split.simps [of s] Cons)
    also have "\<dots> \<le> Suc (length (dropWhile (\<lambda>x. \<not> isspace x) cs))"
      using 1 [OF Cons] by simp
    also have "\<dots> \<le> Suc (length cs)"
      by (simp add: length_dropWhile_le)
    also have "\<dots> = length (dropWhile isspace s)"
      by (simp add: Cons)
    also have "\<dots> \<le> length s"
      by (rule length_dropWhile_le)
    finally show ?thesis .
  qed
qed

lemma split_dropWhile: "split (dropWhile isspace s) = split s"
  by (simp add: split.simps [of "dropWhile isspace s"] split.simps [of s])

lemma split_token_append:
  assumes "t \<noteq> []" "\<forall>x \<in> set t. \<not> isspace x" "rest = [] \<or> isspace (hd rest)"
  shows "split (t @ rest) = t # split rest"
proof -
  from assms(1) obtain c t' where t: "t = c # t'" by (cases t) auto
  with assms(2) have c: "\<not> isspace c" and t': "\<forall>x \<in> set t'. \<not> isspace x" by simp_all
  have tk: "takeWhile (\<lambda>x. \<not> isspace x) (t' @ rest) = t'"
    using t' assms(3) by (cases rest) (simp_all add: takeWhile_append2)
  have dr: "dropWhile (\<lambda>x. \<not> isspace x) (t' @ rest) = rest"
    using t' assms(3) by (cases rest) (simp_all add: dropWhile_append2)
  have "split (c # t' @ rest) =
          (c # takeWhile (\<lambda>x. \<not> isspace x) (t' @ rest)) #
          split (dropWhile (\<lambda>x. \<not> isspace x) (t' @ rest))"
    by (simp add: split.simps [of "c # t' @ rest"] c)
  then show ?thesis
    by (simp add: tk dr t)
qed

lemma split_join:
  "\<forall>t \<in> set ts. t \<noteq> [] \<and> (\<forall>x \<in> set t. \<not> isspace x) \<Longrightarrow> split (join ts) = ts"
proof (induction ts rule: join.induct)
  case 1
  show ?case by (simp add: split.simps [of "[]"])
next
  case (2 t)
  then have "split (t @ []) = t # split []"
    by (intro split_token_append) simp_all
  then show ?case by (simp add: split.simps [of "[]"])
next
  case (3 t u us)
  then have "split (t @ 32 # join (u # us)) = t # split (32 # join (u # us))"
    by (intro split_token_append) (simp_all add: isspace_32)
  also have "split (32 # join (u # us)) = split (join (u # us))"
    using split_dropWhile [of "32 # join (u # us)"] by (simp add: isspace_32 split_dropWhile)
  also have "\<dots> = u # us" using 3 by simp
  finally show ?case by simp
qed

lemma split_join_split: "split (join (split s)) = split s"
  by (rule split_join) (blast dest: split_tokens)

section \<open>Facts about the fragments\<close>

lemma highlighted_map:
  "highlighted original corrected =
     map (\<lambda>(a, b). if a \<noteq> b then marked a b else a) (zip (split original) (split corrected))"
  by (simp add: highlighted_def highlight_loop_acc)

lemma highlighted_nth:
  assumes "i < length (split original)" "i < length (split corrected)"
  shows "highlighted original corrected ! i =
     (if split original ! i \<noteq> split corrected ! i
      then marked (split original ! i) (split corrected ! i) else split original ! i)"
  using assms by (simp add: highlighted_map)

lemma length_highlighted:
  "length (highlighted original corrected) =
     min (length (split original)) (length (split corrected))"
  by (simp add: highlighted_map)

section \<open>Facts about the correction map\<close>

lemma get_corrections_fst: "fst (get_corrections original corrected) = split corrected"
  by (simp add: get_corrections_def Let_def)

lemma get_corrections_snd:
  "snd (get_corrections original corrected) =
     corrections_loop (zip (split original) (split corrected)) []"
  by (simp add: get_corrections_def Let_def)

lemma get_corrections_distinct:
  "distinct (map fst (snd (get_corrections original corrected)))"
  by (simp add: get_corrections_snd corrections_loop_distinct)

lemma get_corrections_lookup:
  "map_of (snd (get_corrections original corrected)) k = Some v \<longleftrightarrow>
     (\<exists>i. i < length (split original) \<and> i < length (split corrected) \<and>
          split original ! i = k \<and> split corrected ! i = v \<and> k \<noteq> v \<and>
          (\<forall>j. i < j \<and> j < length (split original) \<and> j < length (split corrected) \<and>
               split original ! j = k \<longrightarrow> split corrected ! j = k))"
  (is "?L \<longleftrightarrow> ?R")
proof -
  let ?ps = "zip (split original) (split corrected)"
  have "?L \<longleftrightarrow> (\<exists>i < length ?ps. ?ps ! i = (k, v) \<and> k \<noteq> v \<and>
        (\<forall>j. i < j \<and> j < length ?ps \<and> fst (?ps ! j) = k \<longrightarrow> snd (?ps ! j) = k))"
    by (simp only: get_corrections_snd corrections_loop_map_of last_change_index
        map_of.simps map_add_empty empty_map_add)
  also have "\<dots> \<longleftrightarrow> ?R"
  proof
    assume "\<exists>i < length ?ps. ?ps ! i = (k, v) \<and> k \<noteq> v \<and>
        (\<forall>j. i < j \<and> j < length ?ps \<and> fst (?ps ! j) = k \<longrightarrow> snd (?ps ! j) = k)"
    then obtain i where i: "i < length ?ps" "?ps ! i = (k, v)" "k \<noteq> v"
      "\<forall>j. i < j \<and> j < length ?ps \<and> fst (?ps ! j) = k \<longrightarrow> snd (?ps ! j) = k"
      by blast
    have "split corrected ! j = k"
      if "i < j" "j < length (split original)" "j < length (split corrected)"
        "split original ! j = k" for j
      using i(4) that by (auto dest!: spec [of _ j])
    with i(1-3) show ?R by auto
  next
    assume ?R
    then obtain i where i: "i < length (split original)" "i < length (split corrected)"
      "split original ! i = k" "split corrected ! i = v" "k \<noteq> v"
      "\<forall>j. i < j \<and> j < length (split original) \<and> j < length (split corrected) \<and>
               split original ! j = k \<longrightarrow> split corrected ! j = k"
      by blast
    have "snd (?ps ! j) = k" if "i < j" "j < length ?ps" "fst (?ps ! j) = k" for j
      using i(6) that by (auto dest!: spec [of _ j])
    moreover from i(1-4) have "i < length ?ps" "?ps ! i = (k, v)" by simp_all
    ultimately show "\<exists>i < length ?ps. ?ps ! i = (k, v) \<and> k \<noteq> v \<and>
        (\<forall>j. i < j \<and> j < length ?ps \<and> fst (?ps ! j) = k \<longrightarrow> snd (?ps ! j) = k)"
      using i(5) by blast
  qed
  finally show ?thesis .
qed

lemma get_corrections_entry:
  "(k, v) \<in> set (snd (get_corrections original corrected)) \<longleftrightarrow>
     map_of (snd (get_corrections original corrected)) k = Some v"
  using get_corrections_distinct [of original corrected] by simp


section \<open>Evaluation and list facts\<close>

lemmas eval_defs = highlight_errors_def highlighted_def get_corrections_def Let_def
  split.simps str_def isspace_def

lemma split_join_take: "split (join (take n (split s))) = take n (split s)"
  by (rule split_join) (blast dest: in_set_takeD split_tokens)

lemma zip_take_min:
  "zip (take (min (length xs) (length ys)) xs) (take (min (length xs) (length ys)) ys) = zip xs ys"
  by (simp add: take_zip [symmetric])

lemma length_update_le: "length (AList.update k v al) \<le> Suc (length al)"
  by (induction al) auto

lemma length_corrections_loop:
  "length (corrections_loop ps acc) \<le> length acc + length ps"
proof (induction ps acc rule: corrections_loop.induct)
  case (1 acc)
  show ?case by simp
next
  case (2 a b ps acc)
  show ?case
  proof (cases "a = b")
    case True
    with 2 show ?thesis by simp
  next
    case False
    with 2 have "length (corrections_loop ((a, b) # ps) acc) \<le>
        length (AList.update a b acc) + length ps"
      by simp
    also have "\<dots> \<le> Suc (length acc) + length ps"
      using length_update_le [of a b acc] by simp
    finally show ?thesis by simp
  qed
qed

section \<open>Facts about the returned markup\<close>

lemma marked_literal:
  "marked a b =
     str ''<del style='color:red;'>'' @ a @ str ''</del> <span style='color:green;'>'' @ b @
     str ''</span>''"
  by (simp add: marked_def str_def)











lemma highlight_errors_literal:
  "highlight_errors original corrected =
     join (map (\<lambda>i. if split original ! i \<noteq> split corrected ! i
                    then str ''<del style='color:red;'>'' @ split original ! i @
                      str ''</del> <span style='color:green;'>'' @ split corrected ! i @
                      str ''</span>''
                    else split original ! i)
             [0 ..< min (length (split original)) (length (split corrected))])"
proof -
  let ?n = "min (length (split original)) (length (split corrected))"
  have "highlighted original corrected =
          map (\<lambda>i. if split original ! i \<noteq> split corrected ! i
                    then marked (split original ! i) (split corrected ! i)
                    else split original ! i) [0 ..< ?n]"
    by (rule nth_equalityI) (simp_all add: length_highlighted highlighted_nth)
  then show ?thesis
    by (simp only: highlight_errors_def marked_literal)
qed


section \<open>The properties of the specification\<close>

text \<open>
  Claim C1. \<^verbatim>\<open>highlight_errors\<close> splits both strings at whitespace and visits the
  positions below the length of the shorter token sequence, in order. Where the two
  tokens are different strings it emits the original token inside the red
  \<^verbatim>\<open>del\<close> element (removed), a space, and the corrected token inside the green
  \<^verbatim>\<open>span\<close> element (added); where they are the same string it emits the token. The
  result is the fragments joined by single spaces. For \<^verbatim>\<open>"teh cat sat"\<close> and
  \<^verbatim>\<open>"the cat sat"\<close> the first token is marked and the other two are passed through.
\<close>

theorem highlight_errors_positional:
  "highlight_errors original corrected =
     join (map (\<lambda>i. if split original ! i \<noteq> split corrected ! i
                    then str ''<del style='color:red;'>'' @ split original ! i @
                      str ''</del> <span style='color:green;'>'' @ split corrected ! i @
                      str ''</span>''
                    else split original ! i)
             [0 ..< min (length (split original)) (length (split corrected))]) \<and>
   highlight_errors (str ''teh cat sat'') (str ''the cat sat'') =
     str ''<del style='color:red;'>teh</del> <span style='color:green;'>the</span> cat sat''"
proof
  show "highlight_errors original corrected =
     join (map (\<lambda>i. if split original ! i \<noteq> split corrected ! i
                    then str ''<del style='color:red;'>'' @ split original ! i @
                      str ''</del> <span style='color:green;'>'' @ split corrected ! i @
                      str ''</span>''
                    else split original ! i)
             [0 ..< min (length (split original)) (length (split corrected))])"
    by (rule highlight_errors_literal)
next
  show "highlight_errors (str ''teh cat sat'') (str ''the cat sat'') =
     str ''<del style='color:red;'>teh</del> <span style='color:green;'>the</span> cat sat''"
    by (simp add: eval_defs marked_def)
qed

theorem highlight_errors_positional_witness:
  "highlight_errors (str ''a  b c'') (str ''a x'') =
     str ''a <del style='color:red;'>b</del> <span style='color:green;'>x</span>''"
  using highlight_errors_positional [of "str ''a  b c''" "str ''a x''"]
  by (simp add: split.simps str_def isspace_def)

text \<open>
  Claim C2. \<^verbatim>\<open>get_corrections\<close> returns all the tokens of the corrected string, in
  order, and a dictionary with distinct keys whose entries are exactly the pairs
  (original token, corrected token) of a position below the shorter length where the
  two differ and after which the same original token is not changed again: a later
  change of a key overwrites an earlier one. For \<^verbatim>\<open>"a a b"\<close> and \<^verbatim>\<open>"a x b"\<close> the
  tokens are \<^verbatim>\<open>["a", "x", "b"]\<close> and the dictionary is \<^verbatim>\<open>{"a": "x"}\<close>.
\<close>

theorem get_corrections_result:
  "fst (get_corrections original corrected) = split corrected \<and>
   distinct (map fst (snd (get_corrections original corrected))) \<and>
   (\<forall>k v. (k, v) \<in> set (snd (get_corrections original corrected)) \<longleftrightarrow>
      (\<exists>i. i < length (split original) \<and> i < length (split corrected) \<and>
           split original ! i = k \<and> split corrected ! i = v \<and> k \<noteq> v \<and>
           (\<forall>j. i < j \<and> j < length (split original) \<and> j < length (split corrected) \<and>
                split original ! j = k \<longrightarrow> split corrected ! j = k))) \<and>
   get_corrections (str ''a a b'') (str ''a x b'') =
     ([str ''a'', str ''x'', str ''b''], [(str ''a'', str ''x'')])"
proof (intro conjI allI)
  show "fst (get_corrections original corrected) = split corrected"
    by (rule get_corrections_fst)
  show "distinct (map fst (snd (get_corrections original corrected)))"
    by (rule get_corrections_distinct)
  show "(k, v) \<in> set (snd (get_corrections original corrected)) \<longleftrightarrow>
      (\<exists>i. i < length (split original) \<and> i < length (split corrected) \<and>
           split original ! i = k \<and> split corrected ! i = v \<and> k \<noteq> v \<and>
           (\<forall>j. i < j \<and> j < length (split original) \<and> j < length (split corrected) \<and>
                split original ! j = k \<longrightarrow> split corrected ! j = k))" for k v
    by (simp only: get_corrections_entry get_corrections_lookup)
  show "get_corrections (str ''a a b'') (str ''a x b'') =
     ([str ''a'', str ''x'', str ''b''], [(str ''a'', str ''x'')])"
    by (simp add: eval_defs)
qed

theorem get_corrections_result_witness:
  "fst (get_corrections (str ''p q'') (str ''p r s'')) = [str ''p'', str ''r'', str ''s''] \<and>
   (str ''q'', str ''r'') \<in> set (snd (get_corrections (str ''p q'') (str ''p r s'')))"
proof -
  have sp: "split (str ''p q'') = [str ''p'', str ''q'']"
    "split (str ''p r s'') = [str ''p'', str ''r'', str ''s'']"
    by (simp_all add: split.simps str_def isspace_def)
  have "\<exists>i. i < length (split (str ''p q'')) \<and> i < length (split (str ''p r s'')) \<and>
           split (str ''p q'') ! i = str ''q'' \<and> split (str ''p r s'') ! i = str ''r'' \<and>
           str ''q'' \<noteq> str ''r'' \<and>
           (\<forall>j. i < j \<and> j < length (split (str ''p q'')) \<and> j < length (split (str ''p r s'')) \<and>
                split (str ''p q'') ! j = str ''q'' \<longrightarrow> split (str ''p r s'') ! j = str ''q'')"
    by (rule exI [of _ 1]) (simp add: sp, simp add: str_def)
  with get_corrections_result [of "str ''p q''" "str ''p r s''"] sp show ?thesis
    by (simp only:)
qed

text \<open>
  Claim C3. When the two token sequences have different lengths, only the positions
  below the shorter length \<open>n\<close> are compared: \<^verbatim>\<open>highlight_errors\<close> builds \<open>n\<close>
  fragments and gives the same string as on the first \<open>n\<close> tokens of each input,
  \<^verbatim>\<open>get_corrections\<close> gives the same dictionary as on the first \<open>n\<close> tokens of each
  input, and every entry of the dictionary comes from a position below \<open>n\<close>. Both
  functions are total: there is no error result. For \<^verbatim>\<open>"a b"\<close> and \<^verbatim>\<open>"a b c"\<close> the
  dictionary is empty.
\<close>

theorem unequal_length_truncation:
  "length (split original) \<noteq> length (split corrected) \<Longrightarrow>
   (let original_tokens = split original; corrected_tokens = split corrected;
        n = min (length original_tokens) (length corrected_tokens)
    in length (highlighted original corrected) = n \<and>
       highlight_errors original corrected =
         highlight_errors (join (take n original_tokens)) (join (take n corrected_tokens)) \<and>
       snd (get_corrections original corrected) =
         snd (get_corrections (join (take n original_tokens)) (join (take n corrected_tokens))) \<and>
       (\<forall>(k, v) \<in> set (snd (get_corrections original corrected)).
          \<exists>i < n. original_tokens ! i = k \<and> corrected_tokens ! i = v)) \<and>
   snd (get_corrections (str ''a b'') (str ''a b c'')) = []"
proof -
  let ?os = "split original" and ?cs = "split corrected"
  let ?n = "min (length ?os) (length ?cs)"
  have 1: "length (highlighted original corrected) = ?n"
    by (rule length_highlighted)
  have "highlighted (join (take ?n ?os)) (join (take ?n ?cs)) = highlighted original corrected"
    by (simp only: highlighted_map split_join_take zip_take_min)
  then have 2: "highlight_errors original corrected =
      highlight_errors (join (take ?n ?os)) (join (take ?n ?cs))"
    by (simp only: highlight_errors_def)
  have 3: "snd (get_corrections original corrected) =
      snd (get_corrections (join (take ?n ?os)) (join (take ?n ?cs)))"
    by (simp only: get_corrections_snd split_join_take zip_take_min)
  have 4: "\<exists>i < ?n. ?os ! i = k \<and> ?cs ! i = v"
    if "(k, v) \<in> set (snd (get_corrections original corrected))" for k v
  proof -
    from that have "map_of (snd (get_corrections original corrected)) k = Some v"
      by (simp only: get_corrections_entry)
    then obtain i where "i < length ?os" "i < length ?cs" "?os ! i = k" "?cs ! i = v"
      unfolding get_corrections_lookup by blast
    then show ?thesis by (intro exI [of _ i]) simp
  qed
  have 5: "snd (get_corrections (str ''a b'') (str ''a b c'')) = []"
    by (simp add: eval_defs)
  from 1 2 3 4 5 show ?thesis by (simp only: Let_def) blast
qed

theorem unequal_length_truncation_witness:
  "length (split (str ''a b'')) \<noteq> length (split (str ''a b c'')) \<and>
   length (highlighted (str ''a b'') (str ''a b c'')) = 2 \<and>
   highlight_errors (str ''a b'') (str ''a b c'') =
     highlight_errors (join [str ''a'', str ''b'']) (join [str ''a'', str ''b''])"
proof -
  have sp: "split (str ''a b'') = [str ''a'', str ''b'']"
    "split (str ''a b c'') = [str ''a'', str ''b'', str ''c'']"
    by (simp_all add: split.simps str_def isspace_def)
  have h: "length (split (str ''a b'')) \<noteq> length (split (str ''a b c''))"
    by (simp add: sp)
  from unequal_length_truncation [OF h] h show ?thesis
    by (simp add: Let_def sp)
qed

text \<open>
  Claim C4. \<^verbatim>\<open>highlight_errors\<close> of a string with itself is the single-space join of
  its tokens: no fragment is marked, the result has the tokens of the input, and a
  string that already is a single-space join of tokens is returned as it is. For
  \<^verbatim>\<open>"a b c"\<close> the result is \<^verbatim>\<open>"a b c"\<close>.
\<close>

theorem highlight_errors_same:
  "highlight_errors x x = join (split x) \<and>
   highlighted x x = split x \<and>
   split (highlight_errors x x) = split x \<and>
   ((\<forall>t \<in> set ts. t \<noteq> [] \<and> (\<forall>c \<in> set t. \<not> isspace c)) \<longrightarrow>
      highlight_errors (join ts) (join ts) = join ts) \<and>
   highlight_errors (str ''a b c'') (str ''a b c'') = str ''a b c''"
proof -
  have same: "highlighted y y = split y" for y
    by (simp add: highlighted_map zip_same_conv_map o_def)
  then have he: "highlight_errors y y = join (split y)" for y
    by (simp add: highlight_errors_def)
  have "highlight_errors (join ts) (join ts) = join ts"
    if "\<forall>t \<in> set ts. t \<noteq> [] \<and> (\<forall>c \<in> set t. \<not> isspace c)"
    using split_join [OF that] by (simp add: he)
  moreover have "highlight_errors (str ''a b c'') (str ''a b c'') = str ''a b c''"
    by (simp add: eval_defs)
  ultimately show ?thesis
    using same [of x] he [of x] split_join_split [of x] by simp
qed

theorem highlight_errors_same_witness:
  "highlight_errors (str ''ab c'') (str ''ab c'') = str ''ab c'' \<and>
   highlight_errors (str '' ab   c '') (str '' ab   c '') = str ''ab c''"
proof -
  have h: "\<forall>t \<in> set [str ''ab'', str ''c'']. t \<noteq> [] \<and> (\<forall>c \<in> set t. \<not> isspace c)"
    by (simp add: str_def isspace_def)
  have j: "join [str ''ab'', str ''c''] = str ''ab c''" by (simp add: str_def)
  have sp: "split (str '' ab   c '') = [str ''ab'', str ''c'']"
    by (simp add: split.simps str_def isspace_def)
  from highlight_errors_same [of "str '' ab   c ''" "[str ''ab'', str ''c'']"] h
  show ?thesis by (simp only: j sp)
qed

text \<open>
  Claim C5. \<^verbatim>\<open>highlight_errors\<close> is a total function from two strings to a string:
  none of its steps (\<^verbatim>\<open>split\<close>, \<^verbatim>\<open>zip\<close>, the comparison, \<^verbatim>\<open>append\<close>, \<^verbatim>\<open>join\<close>) can
  raise on strings, so there is no error result, whatever the token counts. When the
  original or the corrected string is empty the result is the empty string; so it is
  for two empty strings.
\<close>

theorem highlight_errors_empty:
  "highlight_errors [] corrected = [] \<and>
   highlight_errors original [] = [] \<and>
   highlight_errors (str '''') (str '''') = str ''''"
  by (simp add: highlight_errors_def highlighted_def split.simps [of "[]"] str_def)

theorem highlight_errors_empty_witness:
  "highlight_errors [] (str ''a b'') = [] \<and> highlight_errors (str ''a b'') [] = []"
  using highlight_errors_empty [of "str ''a b''" "str ''a b''"] by simp

text \<open>
  Claim C7. Both functions are total, \<open>split\<close> by the termination proof above and the
  loops by structural recursion over the pairs of \<^verbatim>\<open>zip\<close>. The loop of
  \<^verbatim>\<open>highlight_errors\<close> appends one fragment in each iteration, so the number of
  fragments counts its iterations: it is the smaller of the two token counts. The loop
  of \<^verbatim>\<open>get_corrections\<close> writes the dictionary at most once in each iteration, so the
  dictionary has at most that many entries. A string has at most as many tokens as
  code points, so the pass is bounded by the length of the shorter input.
\<close>

theorem single_pass_bounded:
  "length (highlighted original corrected) =
     min (length (split original)) (length (split corrected)) \<and>
   length (snd (get_corrections original corrected)) \<le>
     min (length (split original)) (length (split corrected)) \<and>
   min (length (split original)) (length (split corrected)) \<le>
     min (length original) (length corrected)"
proof (intro conjI)
  show "length (highlighted original corrected) =
     min (length (split original)) (length (split corrected))"
    by (rule length_highlighted)
  show "length (snd (get_corrections original corrected)) \<le>
     min (length (split original)) (length (split corrected))"
    using length_corrections_loop [of "zip (split original) (split corrected)" "[]"]
    by (simp add: get_corrections_snd)
  show "min (length (split original)) (length (split corrected)) \<le>
     min (length original) (length corrected)"
    using length_split_le [of original] length_split_le [of corrected]
    by (auto simp: min_def)
qed

theorem single_pass_bounded_witness:
  "length (highlighted (str ''a b c'') (str ''x b'')) = 2 \<and>
   length (snd (get_corrections (str ''a b c'') (str ''x b''))) \<le> 2"
proof -
  have sp: "split (str ''a b c'') = [str ''a'', str ''b'', str ''c'']"
    "split (str ''x b'') = [str ''x'', str ''b'']"
    by (simp_all add: split.simps str_def isspace_def)
  from single_pass_bounded [of "str ''a b c''" "str ''x b''"] show ?thesis
    by (simp add: sp)
qed

text \<open>
  Claim C8. No entry of the dictionary of \<^verbatim>\<open>get_corrections\<close> maps a token to itself,
  also when a repeated original token is unchanged at one position and changed at
  another.
\<close>

theorem corrections_no_identity:
  "(k, v) \<in> set (snd (get_corrections original corrected)) \<Longrightarrow> k \<noteq> v"
  by (simp only: get_corrections_entry get_corrections_lookup) blast

theorem corrections_no_identity_witness:
  "(str ''a'', str ''x'') \<in> set (snd (get_corrections (str ''a a b'') (str ''a x b''))) \<and>
   str ''a'' \<noteq> str ''x''"
proof -
  have h: "(str ''a'', str ''x'') \<in> set (snd (get_corrections (str ''a a b'') (str ''a x b'')))"
    by (simp add: eval_defs)
  from h corrections_no_identity [OF h] show ?thesis by simp
qed

text \<open>
  Claim C9. The token list that \<^verbatim>\<open>get_corrections\<close> returns is the same for any two
  original strings: it is the whitespace split of the corrected string, all of it,
  also when the original has fewer tokens.
\<close>

theorem corrected_tokens_independent:
  "fst (get_corrections original1 corrected) = fst (get_corrections original2 corrected) \<and>
   fst (get_corrections original1 corrected) = split corrected"
  by (simp add: get_corrections_fst)

theorem corrected_tokens_independent_witness:
  "fst (get_corrections (str ''a'') (str ''x y z'')) = fst (get_corrections [] (str ''x y z'')) \<and>
   fst (get_corrections (str ''a'') (str ''x y z'')) = [str ''x'', str ''y'', str ''z'']"
  using corrected_tokens_independent [of "str ''a''" "str ''x y z''" "[]"]
  by (simp add: eval_defs)




end
